theory Spec2Isabelle
  imports Complex_Main
begin

section \<open>Hecate concept table: the filter-and-collapse engine\<close>

text \<open>
  The development follows \<^verbatim>\<open>ui/src/components/ConceptTable.tsx\<close>. The hooks of the
  component close over the React state \<^verbatim>\<open>originalData\<close>, \<^verbatim>\<open>currentFilters\<close> and
  \<^verbatim>\<open>filteredInfo\<close>; here each function takes the state it reads as an argument and
  returns the value it computes (for \<^verbatim>\<open>filterData\<close>: the list handed to
  \<^verbatim>\<open>setSelected\<close>).
\<close>

subsection \<open>Data model\<close>

text \<open>
  Modelled from the spec: the declaration of \<^verbatim>\<open>ConceptRow\<close>, which the component
  imports from \<^verbatim>\<open>../@types/data-source\<close>, is not among the sources. The fields are
  those of the specification's data model, as the component and \<^verbatim>\<open>config/api.ts\<close> use
  them: \<^verbatim>\<open>concept_id\<close> and \<^verbatim>\<open>score\<close> are numbers that a group row lacks, each of
  the five filterable fields is an array of strings that is always there, and
  \<^verbatim>\<open>children\<close> is an optional array of rows. A value that JavaScript reads as
  \<^verbatim>\<open>undefined\<close> is \<open>None\<close>.
\<close>

datatype ConceptRow = ConceptRow
  (concept_id: "int option")
  (concept_name: string)
  (concept_code: "string option")
  (concept_class_id: "string list")
  (domain_id: "string list")
  (invalid_reason: "string list")
  (standard_concept: "string list")
  (vocabulary_id: "string list")
  (score: "real option")
  (children: "ConceptRow list option")

text \<open>
  \<^verbatim>\<open>interface FilterState\<close>: five optional arrays of selected values. The fields
  have the names of the row's fields; here they carry the prefix \<open>sel_\<close>.
\<close>

record FilterState =
  sel_concept_class_id :: "string list option"
  sel_domain_id :: "string list option"
  sel_invalid_reason :: "string list option"
  sel_standard_concept :: "string list option"
  sel_vocabulary_id :: "string list option"

text \<open>\<^verbatim>\<open>type FilterField = keyof FilterState\<close>.\<close>

datatype FilterField =
  Concept_class_id | Domain_id | Invalid_reason | Standard_concept | Vocabulary_id

text \<open>\<^verbatim>\<open>row[field]\<close> and \<^verbatim>\<open>filters[field]\<close>.\<close>

fun row_field :: "ConceptRow \<Rightarrow> FilterField \<Rightarrow> string list" where
  "row_field r Concept_class_id = concept_class_id r"
| "row_field r Domain_id = domain_id r"
| "row_field r Invalid_reason = invalid_reason r"
| "row_field r Standard_concept = standard_concept r"
| "row_field r Vocabulary_id = vocabulary_id r"

fun selection :: "FilterState \<Rightarrow> FilterField \<Rightarrow> string list option" where
  "selection f Concept_class_id = sel_concept_class_id f"
| "selection f Domain_id = sel_domain_id f"
| "selection f Invalid_reason = sel_invalid_reason f"
| "selection f Standard_concept = sel_standard_concept f"
| "selection f Vocabulary_id = sel_vocabulary_id f"

subsection \<open>JavaScript primitives the component relies on\<close>

text \<open>\<^verbatim>\<open>xs[0]\<close>: the first element, \<^verbatim>\<open>undefined\<close> on an empty array.\<close>

definition first_value :: "string list \<Rightarrow> string option" where
  "first_value xs = (case xs of [] \<Rightarrow> None | x # _ \<Rightarrow> Some x)"

text \<open>
  \<^verbatim>\<open>xs.includes(v)\<close> on an array of strings: \<^verbatim>\<open>undefined\<close> is equal to no string.
\<close>

definition array_includes :: "string list \<Rightarrow> string option \<Rightarrow> bool" where
  "array_includes xs v = (case v of None \<Rightarrow> False | Some s \<Rightarrow> s \<in> set xs)"

text \<open>
  \<^verbatim>\<open>Boolean(v)\<close> for a string or \<^verbatim>\<open>undefined\<close>: false for \<^verbatim>\<open>undefined\<close> and for
  the empty string.
\<close>

definition truthy :: "string option \<Rightarrow> bool" where
  "truthy v = (case v of None \<Rightarrow> False | Some s \<Rightarrow> s \<noteq> [])"

subsection \<open>applyFiltersToChildren\<close>

text \<open>
  One guard of the callback, \<^verbatim>\<open>filters.F?.length && !filters.F.includes(child.F[0])\<close>:
  the selection is present, it has a non-zero length, and it does not hold the child's
  first value.
\<close>

definition rejects :: "string list option \<Rightarrow> string list \<Rightarrow> bool" where
  "rejects sel vals =
     (case sel of None \<Rightarrow> False
      | Some xs \<Rightarrow> length xs \<noteq> 0 \<and> \<not> array_includes xs (first_value vals))"

text \<open>The callback given to \<^verbatim>\<open>children.filter\<close>, guard by guard in source order.\<close>

definition matches :: "ConceptRow \<Rightarrow> FilterState \<Rightarrow> bool" where
  "matches child filters =
     (if rejects (sel_concept_class_id filters) (concept_class_id child) then False
      else if rejects (sel_domain_id filters) (domain_id child) then False
      else if rejects (sel_invalid_reason filters) (invalid_reason child) then False
      else if rejects (sel_standard_concept filters) (standard_concept child) then False
      else if rejects (sel_vocabulary_id filters) (vocabulary_id child) then False
      else True)"

definition applyFiltersToChildren :: "ConceptRow list \<Rightarrow> FilterState \<Rightarrow> ConceptRow list" where
  "applyFiltersToChildren cs filters = filter (\<lambda>child. matches child filters) cs"

subsection \<open>filterData\<close>

text \<open>\<^verbatim>\<open>{ ...row, children: acceptedChildren }\<close>.\<close>

fun with_children :: "ConceptRow \<Rightarrow> ConceptRow list \<Rightarrow> ConceptRow" where
  "with_children (ConceptRow i n c cl d iv st v s ch) acc =
     ConceptRow i n c cl d iv st v s (Some acc)"

text \<open>
  The callback of \<^verbatim>\<open>originalData.map\<close>. The spreads \<^verbatim>\<open>{ ...row }\<close> and
  \<^verbatim>\<open>{ ...acceptedChildren[0] }\<close> copy every property, so the copy is the same value.
\<close>

definition filterRow :: "FilterState \<Rightarrow> ConceptRow \<Rightarrow> ConceptRow" where
  "filterRow currentFilters row =
     (case children row of
        None \<Rightarrow> row
      | Some cs \<Rightarrow>
          if length cs > 1 then
            (let acceptedChildren = applyFiltersToChildren cs currentFilters in
             if length acceptedChildren = 1 then acceptedChildren ! 0
             else with_children row acceptedChildren)
          else row)"

definition filterData :: "ConceptRow list \<Rightarrow> FilterState \<Rightarrow> ConceptRow list" where
  "filterData originalData currentFilters = map (filterRow currentFilters) originalData"

text \<open>The initial state \<^verbatim>\<open>useState<FilterState>({})\<close>, also set by \<^verbatim>\<open>clearFilters\<close>.\<close>

definition defaultFilterState :: FilterState where
  "defaultFilterState =
     \<lparr> sel_concept_class_id = None, sel_domain_id = None, sel_invalid_reason = None,
       sel_standard_concept = None, sel_vocabulary_id = None \<rparr>"

text \<open>A selection constrains nothing when it is absent or empty.\<close>

definition unconstrained :: "string list option \<Rightarrow> bool" where
  "unconstrained sel = (case sel of None \<Rightarrow> True | Some xs \<Rightarrow> xs = [])"

text \<open>A row is a leaf when it has no \<^verbatim>\<open>children\<close> property.\<close>

definition is_leaf :: "ConceptRow \<Rightarrow> bool" where
  "is_leaf r = (children r = None)"

subsection \<open>Adding a constraint to a filter state\<close>

text \<open>
  The filter state with the selection of one field replaced: what \<^verbatim>\<open>handleChange\<close> stores
  when the table reports a new selection for that field and the others are as before.
\<close>

fun set_selection :: "FilterState \<Rightarrow> FilterField \<Rightarrow> string list option \<Rightarrow> FilterState" where
  "set_selection f Concept_class_id s = f \<lparr> sel_concept_class_id := s \<rparr>"
| "set_selection f Domain_id s = f \<lparr> sel_domain_id := s \<rparr>"
| "set_selection f Invalid_reason s = f \<lparr> sel_invalid_reason := s \<rparr>"
| "set_selection f Standard_concept s = f \<lparr> sel_standard_concept := s \<rparr>"
| "set_selection f Vocabulary_id s = f \<lparr> sel_vocabulary_id := s \<rparr>"

subsection \<open>The collapse rule of the specification\<close>

text \<open>
  Step 2 of the specification's algorithm, as its words have it, for a group row with
  children \<open>cs\<close>: the matching children in input order; a single match is promoted,
  any other number of matches becomes the group's children. The specification applies
  it to groups of every size.
\<close>

definition collapse_rule :: "FilterState \<Rightarrow> ConceptRow \<Rightarrow> ConceptRow list \<Rightarrow> ConceptRow" where
  "collapse_rule f row cs =
     (let matched = filter (\<lambda>c. matches c f) cs in
      if length matched = 1 then matched ! 0 else with_children row matched)"

subsection \<open>renderTagsForField and renderCellValue\<close>

text \<open>
  \<^verbatim>\<open>new Set(xs)\<close> followed by the spread \<^verbatim>\<open>[...set]\<close>: a set keeps its members in
  insertion order, and adding a member it already has changes nothing.
\<close>

definition set_add :: "'a list \<Rightarrow> 'a \<Rightarrow> 'a list" where
  "set_add acc x = (if x \<in> set acc then acc else acc @ [x])"

definition new_Set :: "'a list \<Rightarrow> 'a list" where
  "new_Set xs = foldl set_add [] xs"

text \<open>
  \<^verbatim>\<open>.filter(Boolean)\<close> on strings and \<^verbatim>\<open>undefined\<close>: what is left are the
  non-empty strings.
\<close>

definition filter_Boolean :: "string option list \<Rightarrow> string list" where
  "filter_Boolean vs = [s. Some s \<leftarrow> filter truthy vs]"

text \<open>
  \<^verbatim>\<open>r[field] ? r[field][0] : ""\<close>: every array is truthy, the empty one too, so on a
  row whose field is an array this is \<^verbatim>\<open>r[field][0]\<close>.
\<close>

definition field_first :: "FilterField \<Rightarrow> ConceptRow \<Rightarrow> string option" where
  "field_first field r = first_value (row_field r field)"

text \<open>The keys of the \<^verbatim>\<open>Tag\<close> elements that \<^verbatim>\<open>renderTagsForField\<close> returns, in order.\<close>

definition renderTagsForField :: "ConceptRow list \<Rightarrow> FilterField \<Rightarrow> string list" where
  "renderTagsForField filtered field = filter_Boolean (new_Set (map (field_first field) filtered))"

text \<open>
  \<^verbatim>\<open>filteredInfo\<close> is an object in every state of the component (\<^verbatim>\<open>{}\<close> at first, then
  what the table or \<^verbatim>\<open>clearFilters\<close> sets), so \<^verbatim>\<open>!filteredInfo\<close> is false and the
  function is \<^verbatim>\<open>applyFiltersToChildren(children, currentFilters)\<close>.
\<close>

definition applyFilterForConceptsWithChildren :: "ConceptRow list \<Rightarrow> FilterState \<Rightarrow> ConceptRow list" where
  "applyFilterForConceptsWithChildren cs currentFilters = applyFiltersToChildren cs currentFilters"

text \<open>
  What a cell renderer returns: a string or \<^verbatim>\<open>undefined\<close>, a fragment of tags, or the
  row's own array.
\<close>

datatype Cell = Scalar "string option" | Tags "string list" | Values "string list"

text \<open>\<^verbatim>\<open>row.children\<close> is truthy whenever the property is there: an empty array is truthy.\<close>

definition renderCellValue :: "FilterState \<Rightarrow> ConceptRow \<Rightarrow> FilterField \<Rightarrow> Cell" where
  "renderCellValue currentFilters row field =
     (case children row of
        Some cs \<Rightarrow>
          (let filtered = applyFilterForConceptsWithChildren cs currentFilters in
           if length filtered = 1 then Scalar (field_first field (filtered ! 0))
           else Tags (renderTagsForField filtered field))
      | None \<Rightarrow> Values (row_field row field))"

text \<open>
  The specification's "order of first occurrence, duplicates removed": position \<open>i\<close>
  stays when its value occurs at no earlier position.
\<close>

definition first_occurrences :: "'a list \<Rightarrow> 'a list" where
  "first_occurrences xs =
     map (\<lambda>i. xs ! i) (filter (\<lambda>i. xs ! i \<notin> set (take i xs)) [0..<length xs])"

subsection \<open>The id column\<close>

text \<open>\<^verbatim>\<open>String(n)\<close> for a natural number: its decimal digits.\<close>

fun show_nat :: "nat \<Rightarrow> string" where
  "show_nat n =
     (if n < 10 then [''0123456789'' ! n]
      else show_nat (n div 10) @ [''0123456789'' ! (n mod 10)])"

declare show_nat.simps [simp del]

text \<open>What the \<^verbatim>\<open>div\<close> of the id column holds: the number, or a text.\<close>

datatype Content = Num int | Text string

text \<open>
  \<^verbatim>\<open>record.concept_id ? value : record.children?.length + " concepts"\<close>, where
  \<^verbatim>\<open>value\<close> is \<^verbatim>\<open>record.concept_id\<close>. The number 0 is falsy; without \<^verbatim>\<open>children\<close>
  the length is \<^verbatim>\<open>undefined\<close>.
\<close>

definition member_count_label :: "ConceptRow \<Rightarrow> string" where
  "member_count_label record =
     (case children record of None \<Rightarrow> ''undefined'' | Some cs \<Rightarrow> show_nat (length cs))
     @ '' concepts''"

definition idColumnRender :: "ConceptRow \<Rightarrow> Content" where
  "idColumnRender record =
     (case concept_id record of
        Some n \<Rightarrow> if n \<noteq> 0 then Num n else Text (member_count_label record)
      | None \<Rightarrow> Text (member_count_label record))"

subsection \<open>getFilterSelector and createCountForFilter\<close>

text \<open>\<^verbatim>\<open>interface FilterOption\<close>.\<close>

record FilterOption =
  text_of :: string
  value_of :: string

text \<open>
  The \<^verbatim>\<open>forEach\<close> loops of \<^verbatim>\<open>getFilterSelector\<close>: what is pushed onto
  \<^verbatim>\<open>concepts\<close>, in order. A row with \<^verbatim>\<open>children\<close> gives the first value of each child,
  any other row its own first value; \<^verbatim>\<open>undefined\<close> is pushed like a string. The
  variant in the core table, \<^verbatim>\<open>child[field] && concepts.push(child[field][0])\<close>,
  tests the array, which is truthy also when it is empty, and pushes the same values.
\<close>

definition pushed_concepts :: "FilterField \<Rightarrow> ConceptRow list \<Rightarrow> string option list" where
  "pushed_concepts field rows =
     concat (map (\<lambda>row. case children row of
                           Some cs \<Rightarrow> map (field_first field) cs
                         | None \<Rightarrow> [field_first field row]) rows)"

text \<open>
  \<^verbatim>\<open>concepts.sort((a, b) => a.localeCompare(b))\<close>. \<^verbatim>\<open>Array.prototype.sort\<close> moves
  every \<^verbatim>\<open>undefined\<close> to the end without calling the comparator, and sorts the rest
  stably. The collation of \<^verbatim>\<open>localeCompare\<close> belongs to the JavaScript engine and
  its locale data; it is the parameter \<open>cmp\<close> (negative, zero or positive).
\<close>

fun insert_by :: "('a \<Rightarrow> 'a \<Rightarrow> int) \<Rightarrow> 'a \<Rightarrow> 'a list \<Rightarrow> 'a list" where
  "insert_by cmp x [] = [x]"
| "insert_by cmp x (y # ys) = (if cmp x y \<le> 0 then x # y # ys else y # insert_by cmp x ys)"

fun sort_by :: "('a \<Rightarrow> 'a \<Rightarrow> int) \<Rightarrow> 'a list \<Rightarrow> 'a list" where
  "sort_by cmp [] = []"
| "sort_by cmp (x # xs) = insert_by cmp x (sort_by cmp xs)"

definition array_sort :: "(string \<Rightarrow> string \<Rightarrow> int) \<Rightarrow> string option list \<Rightarrow> string option list" where
  "array_sort cmp vs = map Some (sort_by cmp [s. Some s \<leftarrow> vs]) @ filter (\<lambda>v. v = None) vs"

text \<open>\<^verbatim>\<open>acc[concept]\<close>: the property key of a string is itself, of \<^verbatim>\<open>undefined\<close> its name.\<close>

definition property_key :: "string option \<Rightarrow> string" where
  "property_key v = (case v of None \<Rightarrow> ''undefined'' | Some s \<Rightarrow> s)"

text \<open>
  The object \<^verbatim>\<open>counts\<close> starts as \<^verbatim>\<open>{}\<close>: it has no property of its own and
  inherits those of \<^verbatim>\<open>Object.prototype\<close>. Its own properties are kept in the order of
  their creation. What a property holds is a number or, for the inherited names, a string.
\<close>

datatype PropertyValue = NumberValue nat | StringValue string

text \<open>
  The data properties of \<^verbatim>\<open>Object.prototype\<close>, each of them a function. Its one other
  property, \<^verbatim>\<open>__proto__\<close>, is an accessor.
\<close>

definition inherited_functions :: "string list" where
  "inherited_functions =
     [''constructor'', ''__defineGetter__'', ''__defineSetter__'', ''hasOwnProperty'',
      ''__lookupGetter__'', ''__lookupSetter__'', ''isPrototypeOf'', ''propertyIsEnumerable'',
      ''toString'', ''valueOf'', ''toLocaleString'']"

text \<open>
  \<^verbatim>\<open>(v || 0) + 1\<close> for a value \<open>v\<close> that the object holds: a number grows by one, a
  non-empty string gets the text \<^verbatim>\<open>1\<close> appended, the empty string is falsy.
\<close>

definition add_one :: "PropertyValue \<Rightarrow> PropertyValue" where
  "add_one v =
     (case v of
        NumberValue n \<Rightarrow> NumberValue (n + 1)
      | StringValue s \<Rightarrow> if s = [] then NumberValue 1 else StringValue (s @ ''1''))"

text \<open>
  \<^verbatim>\<open>(acc[concept] || 0) + 1\<close>. A property of the object's own is read first. Without
  one, \<^verbatim>\<open>__proto__\<close> reads as the prototype object, whose string form is
  \<^verbatim>\<open>[object Object]\<close>, an inherited function reads as that function, whose string form
  is its source text, and any other key reads as \<^verbatim>\<open>undefined\<close>. The source text of a
  built-in function is the engine's; it is the parameter \<open>native\<close>.
\<close>

definition next_value ::
  "(string \<Rightarrow> string) \<Rightarrow> (string \<times> PropertyValue) list \<Rightarrow> string \<Rightarrow> PropertyValue" where
  "next_value native acc k =
     (case map_of acc k of
        Some v \<Rightarrow> add_one v
      | None \<Rightarrow>
          if k = ''__proto__'' then StringValue ''[object Object]1''
          else if k \<in> set inherited_functions then StringValue (native k @ ''1'')
          else NumberValue 1)"

text \<open>Writing a property of the object's own: in place when it is there, last otherwise.\<close>

fun put :: "(string \<times> 'v) list \<Rightarrow> string \<Rightarrow> 'v \<Rightarrow> (string \<times> 'v) list" where
  "put [] k v = [(k, v)]"
| "put ((k', w) # rest) k v = (if k' = k then (k', v) # rest else (k', w) # put rest k v)"

text \<open>
  \<^verbatim>\<open>acc[concept] = (acc[concept] || 0) + 1\<close>. The assignment to \<^verbatim>\<open>__proto__\<close> calls
  the inherited setter, which does nothing with a string; every other assignment writes
  a property of the object's own.
\<close>

definition bump ::
  "(string \<Rightarrow> string) \<Rightarrow> (string \<times> PropertyValue) list \<Rightarrow> string \<Rightarrow> (string \<times> PropertyValue) list" where
  "bump native acc k =
     (let v = next_value native acc k in if k = ''__proto__'' then acc else put acc k v)"

text \<open>
  \<^verbatim>\<open>Object.entries\<close> lists the keys that are array indices first, in ascending numeric
  order, and then the other keys in the order of their creation. An array index is the
  canonical decimal numeral of a number below \<open>2\<^sup>3\<^sup>2 - 1\<close>.
\<close>

definition is_digit :: "char \<Rightarrow> bool" where
  "is_digit c = (c \<in> set ''0123456789'')"

definition digit_val :: "char \<Rightarrow> nat" where
  "digit_val c = of_char c - 48"

definition dec_val :: "string \<Rightarrow> nat" where
  "dec_val s = foldl (\<lambda>n c. 10 * n + digit_val c) 0 s"

definition is_array_index :: "string \<Rightarrow> bool" where
  "is_array_index s =
     (s \<noteq> [] \<and> list_all is_digit s \<and> (s = ''0'' \<or> hd s \<noteq> CHR ''0'') \<and> dec_val s < 4294967295)"

definition Object_entries :: "(string \<times> 'v) list \<Rightarrow> (string \<times> 'v) list" where
  "Object_entries obj =
     sort_key (\<lambda>(k, v). dec_val k) (filter (\<lambda>(k, v). is_array_index k) obj)
     @ filter (\<lambda>(k, v). \<not> is_array_index k) obj"

text \<open>\<^verbatim>\<open>${count}\<close>: the decimal digits of a number, a string as it is.\<close>

definition show_value :: "PropertyValue \<Rightarrow> string" where
  "show_value v = (case v of NumberValue n \<Rightarrow> show_nat n | StringValue s \<Rightarrow> s)"

definition createCountForFilter :: "(string \<Rightarrow> string) \<Rightarrow> string option list \<Rightarrow> FilterOption list" where
  "createCountForFilter native concepts =
     map (\<lambda>(key, count). \<lparr> text_of = key @ '' ('' @ show_value count @ '')'', value_of = key \<rparr>)
       (Object_entries
          (foldl (\<lambda>acc concept. bump native acc (property_key concept)) [] concepts))"

definition getFilterSelector ::
  "(string \<Rightarrow> string) \<Rightarrow> (string \<Rightarrow> string \<Rightarrow> int) \<Rightarrow> FilterField \<Rightarrow> ConceptRow list
     \<Rightarrow> FilterOption list" where
  "getFilterSelector native cmp field rows =
     createCountForFilter native (array_sort cmp (pushed_concepts field rows))"

text \<open>
  What the object of counts is to hold under a key that occurred \<open>n\<close> times: the number
  \<open>n\<close>, or for an inherited function its source text followed by \<open>n\<close> times \<^verbatim>\<open>1\<close>.
\<close>

definition tally :: "(string \<Rightarrow> string) \<Rightarrow> string \<Rightarrow> nat \<Rightarrow> PropertyValue" where
  "tally native k n =
     (if k \<in> set inherited_functions then StringValue (native k @ replicate n (CHR ''1''))
      else NumberValue n)"

text \<open>
  A source text to run the functions with, the one V8 prints: the function under
  \<^verbatim>\<open>constructor\<close> is \<^verbatim>\<open>Object\<close>, every other one has the name of its property.
\<close>

definition v8_native :: "string \<Rightarrow> string" where
  "v8_native k =
     ''function '' @ (if k = ''constructor'' then ''Object'' else k) @ ''() { [native code] }''"

text \<open>
  A comparator to run the functions with: code units compared from the left, a proper
  prefix first. It is one consistent comparator among those \<^verbatim>\<open>localeCompare\<close> can be.
\<close>

fun compare_units :: "string \<Rightarrow> string \<Rightarrow> int" where
  "compare_units [] [] = 0"
| "compare_units [] (y # ys) = - 1"
| "compare_units (x # xs) [] = 1"
| "compare_units (x # xs) (y # ys) =
     (if (of_char x :: nat) < of_char y then - 1
      else if (of_char y :: nat) < of_char x then 1
      else compare_units xs ys)"

text \<open>A comparator is consistent when "not after" is total and transitive.\<close>

definition consistent :: "('a \<Rightarrow> 'a \<Rightarrow> int) \<Rightarrow> bool" where
  "consistent cmp =
     ((\<forall>a b. cmp a b \<le> 0 \<or> cmp b a \<le> 0) \<and>
      (\<forall>a b c. cmp a b \<le> 0 \<longrightarrow> cmp b c \<le> 0 \<longrightarrow> cmp a c \<le> 0))"

subsection \<open>Sample data\<close>

definition leaf_row :: "int \<Rightarrow> string \<Rightarrow> string \<Rightarrow> string \<Rightarrow> ConceptRow" where
  "leaf_row i nm voc dmn =
     ConceptRow (Some i) nm (Some ''C'') [''Clinical Finding''] [dmn] [''Valid''] [''Standard'']
       [voc] (Some 1) None"

definition group_row :: "string \<Rightarrow> ConceptRow list \<Rightarrow> ConceptRow" where
  "group_row nm cs =
     ConceptRow None nm None (concat (map concept_class_id cs)) (concat (map domain_id cs))
       (concat (map invalid_reason cs)) (concat (map standard_concept cs))
       (concat (map vocabulary_id cs)) None (Some cs)"

definition only_vocabulary :: "string list \<Rightarrow> FilterState" where
  "only_vocabulary xs = defaultFilterState \<lparr> sel_vocabulary_id := Some xs \<rparr>"

definition diabetes :: ConceptRow where
  "diabetes = group_row ''Diabetes''
     [leaf_row 1 ''Diabetes'' ''SNOMED'' ''Condition'',
      leaf_row 2 ''Diabetes'' ''ICD10CM'' ''Condition'']"

definition lone :: ConceptRow where
  "lone = group_row ''Angina'' [leaf_row 7 ''Angina'' ''SNOMED'' ''Condition'']"

definition aspirin :: ConceptRow where
  "aspirin = leaf_row 3 ''Aspirin'' ''RxNorm'' ''Drug''"

definition triple :: ConceptRow where
  "triple = group_row ''Diabetes''
     [leaf_row 1 ''Diabetes'' ''SNOMED'' ''Condition'',
      leaf_row 4 ''Diabetes'' ''SNOMED'' ''Observation'',
      leaf_row 2 ''Diabetes'' ''ICD10CM'' ''Condition'']"

definition bare :: ConceptRow where
  "bare = ConceptRow (Some 9) ''Diabetes'' (Some ''C'') [''Clinical Finding''] [''Condition'']
     [''Valid''] [''Standard''] [] (Some 1) None"

definition blank :: ConceptRow where
  "blank = ConceptRow (Some 8) ''Diabetes'' (Some ''C'') [''Clinical Finding''] [''Condition'']
     [''Valid''] [''Standard''] [''''] (Some 1) None"

section \<open>Properties\<close>

lemmas sample_defs =
  leaf_row_def group_row_def only_vocabulary_def diabetes_def lone_def aspirin_def
  triple_def bare_def blank_def defaultFilterState_def

lemmas selector_defs = getFilterSelector_def createCountForFilter_def Object_entries_def
  bump_def next_value_def add_one_def show_value_def inherited_functions_def v8_native_def
  array_sort_def pushed_concepts_def field_first_def first_value_def property_key_def
  is_array_index_def dec_val_def digit_val_def is_digit_def

lemmas engine_defs =
  filterData_def filterRow_def applyFiltersToChildren_def matches_def rejects_def
  array_includes_def first_value_def unconstrained_def is_leaf_def

lemma with_children_sel [simp]:
  "concept_id (with_children r a) = concept_id r"
  "concept_name (with_children r a) = concept_name r"
  "score (with_children r a) = score r"
  "children (with_children r a) = Some a"
  by (cases r; simp)+

lemma with_children_same: "children r = Some cs \<Longrightarrow> with_children r cs = r"
  by (cases r) simp

lemma rejects_unconstrained: "unconstrained sel \<Longrightarrow> \<not> rejects sel vals"
  by (auto simp: unconstrained_def rejects_def split: option.splits)


subsection \<open>The predicate\<close>

lemma matches_iff_rejects:
  "matches child f \<longleftrightarrow> (\<forall>field. \<not> rejects (selection f field) (row_field child field))"
proof
  assume m: "matches child f"
  show "\<forall>field. \<not> rejects (selection f field) (row_field child field)"
  proof
    fix field
    from m show "\<not> rejects (selection f field) (row_field child field)"
      by (cases field) (simp_all add: matches_def split: if_splits)
  qed
next
  assume a: "\<forall>field. \<not> rejects (selection f field) (row_field child field)"
  from a[rule_format, of Concept_class_id] a[rule_format, of Domain_id]
       a[rule_format, of Invalid_reason] a[rule_format, of Standard_concept]
       a[rule_format, of Vocabulary_id]
  show "matches child f" by (simp add: matches_def)
qed

lemma rejects_iff:
  "rejects sel vals \<longleftrightarrow>
     (case sel of None \<Rightarrow> False
      | Some xs \<Rightarrow> xs \<noteq> [] \<and> \<not> (\<exists>v\<in>set xs. first_value vals = Some v))"
  by (auto simp: rejects_def array_includes_def split: option.splits)

lemma default_unconstrained: "unconstrained (selection defaultFilterState field)"
  by (cases field) (simp_all add: defaultFilterState_def unconstrained_def)

lemma only_vocabulary_selection:
  "selection (only_vocabulary xs) field = (if field = Vocabulary_id then Some xs else None)"
  by (cases field) (simp_all add: only_vocabulary_def defaultFilterState_def)

text \<open>
  C3 (predicate semantics). A child matches a filter state exactly when, for each of the
  five fields whose selection is present and non-empty, the child's first value for that
  field is there and equals one of the selected values; an absent or empty selection
  constrains nothing.
\<close>

theorem matches_semantics:
  "matches child f \<longleftrightarrow>
     (\<forall>field. case selection f field of
                None \<Rightarrow> True
              | Some xs \<Rightarrow> xs \<noteq> [] \<longrightarrow> (\<exists>v\<in>set xs. first_value (row_field child field) = Some v))"
  unfolding matches_iff_rejects rejects_iff
  by (auto split: option.splits)

theorem matches_semantics_witness:
  "(\<forall>field. case selection (only_vocabulary [''ICD10CM'', ''SNOMED'']) field of
              None \<Rightarrow> True
            | Some xs \<Rightarrow> xs \<noteq> [] \<longrightarrow>
                (\<exists>v\<in>set xs. first_value (row_field (leaf_row 1 ''Diabetes'' ''SNOMED'' ''Condition'') field) = Some v))
   \<and> \<not> matches (leaf_row 1 ''Diabetes'' ''SNOMED'' ''Condition'') (only_vocabulary [''RxNorm''])"
proof -
  have m: "matches (leaf_row 1 ''Diabetes'' ''SNOMED'' ''Condition'') (only_vocabulary [''ICD10CM'', ''SNOMED''])"
    by (simp add: sample_defs engine_defs)
  have "\<not> (\<exists>v\<in>set [''RxNorm'']. first_value (row_field (leaf_row 1 ''Diabetes'' ''SNOMED'' ''Condition'') Vocabulary_id) = Some v)"
    by (simp add: sample_defs engine_defs)
  then have n: "\<not> matches (leaf_row 1 ''Diabetes'' ''SNOMED'' ''Condition'') (only_vocabulary [''RxNorm''])"
    unfolding matches_semantics [of _ "only_vocabulary [''RxNorm'']"]
    by (auto simp: only_vocabulary_selection intro!: exI[of _ Vocabulary_id])
  from m n show ?thesis
    unfolding matches_semantics [of _ "only_vocabulary [''ICD10CM'', ''SNOMED'']"] by blast
qed

subsection \<open>The projection\<close>

lemma applyFilters_unconstrained:
  assumes "\<forall>field. unconstrained (selection f field)"
  shows "applyFiltersToChildren cs f = cs"
  using assms by (simp add: applyFiltersToChildren_def matches_iff_rejects rejects_unconstrained)

lemma filterRow_unconstrained:
  assumes "\<forall>field. unconstrained (selection f field)"
  shows "filterRow f row = row"
  using applyFilters_unconstrained[OF assms]
  by (auto simp: filterRow_def Let_def with_children_same split: option.splits)

text \<open>
  C2 (round trip). With the default filter state, and with any filter state whose five
  selections are absent or empty, the projection returns the original row list itself:
  every leaf and every group is passed through with its full child list in its order.
\<close>

theorem filterData_round_trip:
  "filterData D defaultFilterState = D \<and>
   ((\<forall>field. unconstrained (selection f field)) \<longrightarrow> filterData D f = D)"
proof
  have "\<forall>field. unconstrained (selection defaultFilterState field)"
    by (simp add: default_unconstrained)
  from filterRow_unconstrained[OF this] show "filterData D defaultFilterState = D"
    by (simp add: filterData_def map_idI)
  show "(\<forall>field. unconstrained (selection f field)) \<longrightarrow> filterData D f = D"
  proof
    assume "\<forall>field. unconstrained (selection f field)"
    from filterRow_unconstrained[OF this] show "filterData D f = D"
      by (simp add: filterData_def map_idI)
  qed
qed

theorem filterData_round_trip_witness:
  "(\<forall>field. unconstrained (selection (only_vocabulary []) field)) \<and>
   filterData [diabetes, aspirin, lone] (only_vocabulary []) = [diabetes, aspirin, lone] \<and>
   filterData [diabetes, aspirin, lone] defaultFilterState = [diabetes, aspirin, lone]"
proof -
  have h: "\<forall>field. unconstrained (selection (only_vocabulary []) field)"
    by (simp add: only_vocabulary_selection unconstrained_def)
  with filterData_round_trip [of "[diabetes, aspirin, lone]" "only_vocabulary []"]
  show ?thesis by blast
qed

lemma filterRow_collapse:
  assumes "children row = Some cs" "length cs > 1" "applyFiltersToChildren cs f = [c]"
  shows "filterRow f row = c"
  using assms by (simp add: filterRow_def)

lemma filter_single:
  assumes "length (filter P xs) = 1"
  obtains c where "filter P xs = [c]" "c \<in> set xs" "P c" "\<forall>d\<in>set xs. P d \<longrightarrow> d = c"
proof -
  from assms obtain c where c: "filter P xs = [c]"
    by (cases "filter P xs") auto
  then have "c \<in> set (filter P xs)" by simp
  then have 1: "c \<in> set xs" "P c" by auto
  have "\<forall>d\<in>set xs. P d \<longrightarrow> d = c"
  proof (intro ballI impI)
    fix d assume "d \<in> set xs" "P d"
    then have "d \<in> set (filter P xs)" by simp
    with c show "d = c" by simp
  qed
  with c 1 show thesis using that by blast
qed

text \<open>
  C1 (collapse). For a top-level group with more than one child of which exactly one
  matches the filter state, the output row in the group's slot is that one child: it
  carries the child's \<^verbatim>\<open>concept_id\<close>, \<^verbatim>\<open>score\<close> and field sequences, and it is a leaf
  when the child is one.
\<close>

theorem filterData_collapse:
  assumes "i < length D"
    and "children (D ! i) = Some cs"
    and "length cs > 1"
    and "length (filter (\<lambda>c. matches c f) cs) = 1"
  shows "\<exists>c\<in>set cs. matches c f \<and> (\<forall>d\<in>set cs. matches d f \<longrightarrow> d = c) \<and>
           filterData D f ! i = c \<and>
           concept_id (filterData D f ! i) = concept_id c \<and>
           score (filterData D f ! i) = score c \<and>
           (\<forall>field. row_field (filterData D f ! i) field = row_field c field) \<and>
           (is_leaf c \<longrightarrow> is_leaf (filterData D f ! i))"
proof -
  from assms(4) obtain c where c: "filter (\<lambda>c. matches c f) cs = [c]" "c \<in> set cs"
    "matches c f" "\<forall>d\<in>set cs. matches d f \<longrightarrow> d = c"
    by (rule filter_single)
  from c(1) have "applyFiltersToChildren cs f = [c]" by (simp add: applyFiltersToChildren_def)
  from filterRow_collapse[OF assms(2,3) this] assms(1)
  have eq: "filterData D f ! i = c" by (simp add: filterData_def)
  have "matches c f \<and> (\<forall>d\<in>set cs. matches d f \<longrightarrow> d = c) \<and>
           filterData D f ! i = c \<and>
           concept_id (filterData D f ! i) = concept_id c \<and>
           score (filterData D f ! i) = score c \<and>
           (\<forall>field. row_field (filterData D f ! i) field = row_field c field) \<and>
           (is_leaf c \<longrightarrow> is_leaf (filterData D f ! i))"
    unfolding eq using c(3,4) by blast
  with c(2) show ?thesis by (rule bexI[rotated])
qed

theorem filterData_collapse_witness:
  "0 < length [diabetes, aspirin] \<and>
   children ([diabetes, aspirin] ! 0) =
     Some [leaf_row 1 ''Diabetes'' ''SNOMED'' ''Condition'', leaf_row 2 ''Diabetes'' ''ICD10CM'' ''Condition''] \<and>
   length (filter (\<lambda>c. matches c (only_vocabulary [''SNOMED'']))
     [leaf_row 1 ''Diabetes'' ''SNOMED'' ''Condition'', leaf_row 2 ''Diabetes'' ''ICD10CM'' ''Condition'']) = 1 \<and>
   filterData [diabetes, aspirin] (only_vocabulary [''SNOMED'']) ! 0 = leaf_row 1 ''Diabetes'' ''SNOMED'' ''Condition'' \<and>
   concept_id (filterData [diabetes, aspirin] (only_vocabulary [''SNOMED'']) ! 0) = Some 1"
proof -
  let ?a = "leaf_row 1 ''Diabetes'' ''SNOMED'' ''Condition''"
  let ?b = "leaf_row 2 ''Diabetes'' ''ICD10CM'' ''Condition''"
  let ?f = "only_vocabulary [''SNOMED'']"
  have h1: "0 < length [diabetes, aspirin]" by simp
  have h2: "children ([diabetes, aspirin] ! 0) = Some [?a, ?b]"
    by (simp add: diabetes_def group_row_def)
  have h3: "length [?a, ?b] > 1" by simp
  have ma: "matches ?a ?f" and mb: "\<not> matches ?b ?f"
    by (simp_all add: sample_defs engine_defs)
  then have h4: "length (filter (\<lambda>c. matches c ?f) [?a, ?b]) = 1" by simp
  from filterData_collapse [OF h1 h2 h3 h4]
  obtain c where c: "c \<in> set [?a, ?b]" "matches c ?f" "filterData [diabetes, aspirin] ?f ! 0 = c"
    "concept_id (filterData [diabetes, aspirin] ?f ! 0) = concept_id c"
    by blast
  from c(1,2) mb have "c = ?a" by auto
  with c(3,4) have "filterData [diabetes, aspirin] ?f ! 0 = ?a"
    "concept_id (filterData [diabetes, aspirin] ?f ! 0) = Some 1"
    by (simp_all add: leaf_row_def)
  with h1 h2 h4 show ?thesis by blast
qed

lemma selection_set_selection:
  "selection (set_selection f k s) field = (if field = k then s else selection f field)"
  by (cases k; cases field) simp_all

lemma matches_extend:
  assumes "unconstrained (selection f k)" "matches c (set_selection f k s)"
  shows "matches c f"
  unfolding matches_iff_rejects
proof
  fix field
  show "\<not> rejects (selection f field) (row_field c field)"
  proof (cases "field = k")
    case True
    with assms(1) show ?thesis by (simp add: rejects_unconstrained)
  next
    case False
    from assms(2) have "\<not> rejects (selection (set_selection f k s) field) (row_field c field)"
      by (simp add: matches_iff_rejects)
    with False show ?thesis by (simp add: selection_set_selection)
  qed
qed

text \<open>
  C8 (count monotonicity). When a field has no constraint in \<open>f\<close> and \<open>g\<close> is \<open>f\<close> with
  a selection put on that field, no child list has more matching children under \<open>g\<close>
  than under \<open>f\<close>.
\<close>

theorem applyFilters_count_monotone:
  assumes "unconstrained (selection f k)"
    and "g = set_selection f k (Some vals)"
  shows "length (applyFiltersToChildren C g) \<le> length (applyFiltersToChildren C f)"
proof -
  have "matches c g \<longrightarrow> matches c f" for c
    using matches_extend[OF assms(1)] assms(2) by blast
  then have "filter (\<lambda>c. matches c g) C = filter (\<lambda>c. matches c g) (filter (\<lambda>c. matches c f) C)"
    by (induction C) simp_all
  then have "length (filter (\<lambda>c. matches c g) C) \<le> length (filter (\<lambda>c. matches c f) C)"
    by (metis length_filter_le)
  then show ?thesis by (simp add: applyFiltersToChildren_def)
qed

theorem applyFilters_count_monotone_witness:
  "unconstrained (selection defaultFilterState Vocabulary_id) \<and>
   length (applyFiltersToChildren
       [leaf_row 1 ''Diabetes'' ''SNOMED'' ''Condition'', leaf_row 2 ''Diabetes'' ''ICD10CM'' ''Condition'']
       (set_selection defaultFilterState Vocabulary_id (Some [''SNOMED'']))) = 1 \<and>
   length (applyFiltersToChildren
       [leaf_row 1 ''Diabetes'' ''SNOMED'' ''Condition'', leaf_row 2 ''Diabetes'' ''ICD10CM'' ''Condition'']
       defaultFilterState) = 2 \<and>
   length (applyFiltersToChildren
       [leaf_row 1 ''Diabetes'' ''SNOMED'' ''Condition'', leaf_row 2 ''Diabetes'' ''ICD10CM'' ''Condition'']
       (set_selection defaultFilterState Vocabulary_id (Some [''SNOMED'']))) \<le>
   length (applyFiltersToChildren
       [leaf_row 1 ''Diabetes'' ''SNOMED'' ''Condition'', leaf_row 2 ''Diabetes'' ''ICD10CM'' ''Condition'']
       defaultFilterState)"
proof -
  have h: "unconstrained (selection defaultFilterState Vocabulary_id)"
    by (rule default_unconstrained)
  have a: "length (applyFiltersToChildren
       [leaf_row 1 ''Diabetes'' ''SNOMED'' ''Condition'', leaf_row 2 ''Diabetes'' ''ICD10CM'' ''Condition'']
       (set_selection defaultFilterState Vocabulary_id (Some [''SNOMED'']))) = 1"
    by (simp add: sample_defs engine_defs)
  have b: "length (applyFiltersToChildren
       [leaf_row 1 ''Diabetes'' ''SNOMED'' ''Condition'', leaf_row 2 ''Diabetes'' ''ICD10CM'' ''Condition'']
       defaultFilterState) = 2"
    by (simp add: sample_defs engine_defs)
  from h a b applyFilters_count_monotone [OF h refl, where vals = "[''SNOMED'']" and C =
      "[leaf_row 1 ''Diabetes'' ''SNOMED'' ''Condition'', leaf_row 2 ''Diabetes'' ''ICD10CM'' ''Condition'']"]
  show ?thesis by blast
qed

text \<open>
  C5, as the code has it. A top-level group with zero or one child is passed through
  unchanged for every filter state: the predicate is not applied to its child, a lone
  child is neither promoted nor removed. For a group without children this is also what
  the collapse rule gives.
\<close>

theorem filterData_small_group:
  assumes "i < length D"
    and "children (D ! i) = Some cs"
    and "length cs \<le> 1"
  shows "filterData D f ! i = D ! i \<and> children (filterData D f ! i) = Some cs \<and>
         (cs = [] \<longrightarrow> collapse_rule f (D ! i) cs = D ! i)"
  using assms by (simp add: filterData_def filterRow_def collapse_rule_def with_children_same)

theorem filterData_small_group_witness:
  "0 < length [lone, aspirin] \<and>
   children ([lone, aspirin] ! 0) = Some [leaf_row 7 ''Angina'' ''SNOMED'' ''Condition''] \<and>
   filterData [lone, aspirin] (only_vocabulary [''RxNorm'']) ! 0 = lone"
proof -
  have h1: "0 < length [lone, aspirin]" by simp
  have h2: "children ([lone, aspirin] ! 0) = Some [leaf_row 7 ''Angina'' ''SNOMED'' ''Condition'']"
    by (simp add: lone_def group_row_def)
  have h3: "length [leaf_row 7 ''Angina'' ''SNOMED'' ''Condition''] \<le> 1" by simp
  from filterData_small_group [OF h1 h2 h3, of "only_vocabulary [''RxNorm'']"] h1 h2
  show ?thesis by simp
qed

text \<open>
  C5, as the claim has it, fails on a group with one child. When the child does not
  match, the collapse rule would leave a group without children, and when it matches,
  the promoted child; the code returns the group with its one child both times.
\<close>

theorem filterData_small_group_counterexample:
  "children lone = Some [leaf_row 7 ''Angina'' ''SNOMED'' ''Condition''] \<and>
   filterData [lone] (only_vocabulary [''RxNorm'']) = [lone] \<and>
   collapse_rule (only_vocabulary [''RxNorm'']) lone [leaf_row 7 ''Angina'' ''SNOMED'' ''Condition'']
     = with_children lone [] \<and>
   filterData [lone] (only_vocabulary [''RxNorm''])
     \<noteq> [collapse_rule (only_vocabulary [''RxNorm'']) lone [leaf_row 7 ''Angina'' ''SNOMED'' ''Condition'']] \<and>
   filterData [lone] (only_vocabulary [''SNOMED'']) = [lone] \<and>
   collapse_rule (only_vocabulary [''SNOMED'']) lone [leaf_row 7 ''Angina'' ''SNOMED'' ''Condition'']
     = leaf_row 7 ''Angina'' ''SNOMED'' ''Condition'' \<and>
   filterData [lone] (only_vocabulary [''SNOMED''])
     \<noteq> [collapse_rule (only_vocabulary [''SNOMED'']) lone [leaf_row 7 ''Angina'' ''SNOMED'' ''Condition'']]"
  by (simp add: sample_defs engine_defs collapse_rule_def)

lemma filterRow_cases:
  assumes "children row = Some cs" "length cs > 1"
  shows "(applyFiltersToChildren cs f = [filterRow f row] \<and> filterRow f row \<in> set cs) \<or>
         (length (applyFiltersToChildren cs f) \<noteq> 1 \<and>
          filterRow f row = with_children row (applyFiltersToChildren cs f))"
proof (cases "length (applyFiltersToChildren cs f) = 1")
  case True
  then obtain c where c: "applyFiltersToChildren cs f = [c]"
    by (cases "applyFiltersToChildren cs f") auto
  then have "c \<in> set (applyFiltersToChildren cs f)" by simp
  then have "c \<in> set cs" by (simp add: applyFiltersToChildren_def)
  moreover have "filterRow f row = c" using assms c by (rule filterRow_collapse)
  ultimately show ?thesis using c by simp
next
  case False
  with assms have "filterRow f row = with_children row (applyFiltersToChildren cs f)"
    by (simp add: filterRow_def)
  with False show ?thesis by simp
qed

lemma filterRow_other:
  "children row = None \<Longrightarrow> filterRow f row = row"
  "children row = Some cs \<Longrightarrow> \<not> length cs > 1 \<Longrightarrow> filterRow f row = row"
  by (simp_all add: filterRow_def)

lemma filterRow_not_singleton:
  assumes "children row = Some cs" "length cs > 1" "\<forall>c\<in>set cs. is_leaf c"
  shows "children (filterRow f row) \<noteq> Some [c]"
  using filterRow_cases[OF assms(1,2), of f]
proof
  assume "applyFiltersToChildren cs f = [filterRow f row] \<and> filterRow f row \<in> set cs"
  with assms(3) have "children (filterRow f row) = None" by (simp add: is_leaf_def)
  then show ?thesis by simp
next
  assume a: "length (applyFiltersToChildren cs f) \<noteq> 1 \<and>
          filterRow f row = with_children row (applyFiltersToChildren cs f)"
  then have "children (filterRow f row) = Some (applyFiltersToChildren cs f)" by simp
  with a show ?thesis by auto
qed

text \<open>
  C10 (output shape). The projection has one output row per input row, in the input's
  order: the row at slot \<open>i\<close> comes from the input row at slot \<open>i\<close>. A leaf and a group
  with at most one child are that row; a group with more than one child gives either
  its single matching child, or the group with its matching children, whose number is
  then not one. So, the children of a group being leaves, no group with more than one
  child gives a group with exactly one child.
\<close>

theorem filterData_shape:
  "length (filterData D f) = length D \<and>
   (\<forall>i<length D.
      case children (D ! i) of
        None \<Rightarrow> filterData D f ! i = D ! i
      | Some cs \<Rightarrow>
          if length cs > 1 then
            (applyFiltersToChildren cs f = [filterData D f ! i] \<and> filterData D f ! i \<in> set cs) \<or>
            (length (applyFiltersToChildren cs f) \<noteq> 1 \<and>
             filterData D f ! i = with_children (D ! i) (applyFiltersToChildren cs f))
          else filterData D f ! i = D ! i) \<and>
   (\<forall>i<length D. \<forall>cs. children (D ! i) = Some cs \<longrightarrow> length cs > 1 \<longrightarrow>
      (\<forall>c\<in>set cs. is_leaf c) \<longrightarrow>
      (\<forall>c. children (filterData D f ! i) \<noteq> Some [c]))"
proof (intro conjI allI impI)
  show "length (filterData D f) = length D" by (simp add: filterData_def)
next
  fix i assume i: "i < length D"
  then have eq: "filterData D f ! i = filterRow f (D ! i)" by (simp add: filterData_def)
  show "case children (D ! i) of
        None \<Rightarrow> filterData D f ! i = D ! i
      | Some cs \<Rightarrow>
          if length cs > 1 then
            (applyFiltersToChildren cs f = [filterData D f ! i] \<and> filterData D f ! i \<in> set cs) \<or>
            (length (applyFiltersToChildren cs f) \<noteq> 1 \<and>
             filterData D f ! i = with_children (D ! i) (applyFiltersToChildren cs f))
          else filterData D f ! i = D ! i"
    unfolding eq
  proof (cases "children (D ! i)")
    case None
    then show "case children (D ! i) of
        None \<Rightarrow> filterRow f (D ! i) = D ! i
      | Some cs \<Rightarrow>
          if length cs > 1 then
            (applyFiltersToChildren cs f = [filterRow f (D ! i)] \<and> filterRow f (D ! i) \<in> set cs) \<or>
            (length (applyFiltersToChildren cs f) \<noteq> 1 \<and>
             filterRow f (D ! i) = with_children (D ! i) (applyFiltersToChildren cs f))
          else filterRow f (D ! i) = D ! i"
      by (simp add: filterRow_other(1))
  next
    case (Some cs)
    then show "case children (D ! i) of
        None \<Rightarrow> filterRow f (D ! i) = D ! i
      | Some cs \<Rightarrow>
          if length cs > 1 then
            (applyFiltersToChildren cs f = [filterRow f (D ! i)] \<and> filterRow f (D ! i) \<in> set cs) \<or>
            (length (applyFiltersToChildren cs f) \<noteq> 1 \<and>
             filterRow f (D ! i) = with_children (D ! i) (applyFiltersToChildren cs f))
          else filterRow f (D ! i) = D ! i"
      using filterRow_cases[OF Some, of f] filterRow_other(2)[OF Some, of f]
      by (cases "length cs > 1") simp_all
  qed
next
  fix i cs c
  assume i: "i < length D" and ch: "children (D ! i) = Some cs" and l: "length cs > 1"
    and lf: "\<forall>c\<in>set cs. is_leaf c"
  from i have eq: "filterData D f ! i = filterRow f (D ! i)" by (simp add: filterData_def)
  show "children (filterData D f ! i) \<noteq> Some [c]"
    unfolding eq using ch l lf by (rule filterRow_not_singleton)
qed

theorem filterData_shape_witness:
  "length (filterData [diabetes, aspirin, lone] (only_vocabulary [''SNOMED''])) = 3 \<and>
   0 < length [diabetes, aspirin, lone] \<and>
   children ([diabetes, aspirin, lone] ! 0) =
     Some [leaf_row 1 ''Diabetes'' ''SNOMED'' ''Condition'', leaf_row 2 ''Diabetes'' ''ICD10CM'' ''Condition''] \<and>
   is_leaf (leaf_row 1 ''Diabetes'' ''SNOMED'' ''Condition'') \<and>
   is_leaf (leaf_row 2 ''Diabetes'' ''ICD10CM'' ''Condition'') \<and>
   (\<forall>c. children (filterData [diabetes, aspirin, lone] (only_vocabulary [''SNOMED'']) ! 0) \<noteq> Some [c])"
proof -
  let ?D = "[diabetes, aspirin, lone]"
  let ?cs = "[leaf_row 1 ''Diabetes'' ''SNOMED'' ''Condition'', leaf_row 2 ''Diabetes'' ''ICD10CM'' ''Condition'']"
  have h1: "0 < length ?D" by simp
  have h2: "children (?D ! 0) = Some ?cs" by (simp add: diabetes_def group_row_def)
  have h3: "length ?cs > 1" by simp
  have h4: "\<forall>c\<in>set ?cs. is_leaf c" by (simp add: is_leaf_def leaf_row_def)
  note t = filterData_shape [of ?D "only_vocabulary [''SNOMED'']"]
  from t have a: "length (filterData ?D (only_vocabulary [''SNOMED''])) = 3" by simp
  from t have "\<forall>i<length ?D. \<forall>cs. children (?D ! i) = Some cs \<longrightarrow> length cs > 1 \<longrightarrow>
      (\<forall>c\<in>set cs. is_leaf c) \<longrightarrow>
      (\<forall>c. children (filterData ?D (only_vocabulary [''SNOMED'']) ! i) \<noteq> Some [c])"
    by (elim conjE)
  with h1 h2 h3 h4 have "\<forall>c. children (filterData ?D (only_vocabulary [''SNOMED'']) ! 0) \<noteq> Some [c]"
    by blast
  with a h1 h2 h4 show ?thesis by simp
qed

subsection \<open>Tags and cells\<close>

lemma new_Set_snoc: "new_Set (xs @ [x]) = set_add (new_Set xs) x"
  by (simp add: new_Set_def)

lemma new_Set_Nil [simp]: "new_Set [] = []"
  by (simp add: new_Set_def)

lemma set_new_Set [simp]: "set (new_Set xs) = set xs"
  by (induction xs rule: rev_induct) (auto simp: new_Set_snoc set_add_def)

lemma distinct_new_Set: "distinct (new_Set xs)"
  by (induction xs rule: rev_induct) (auto simp: new_Set_snoc set_add_def)

lemma first_occurrences_snoc:
  "first_occurrences (xs @ [x]) = first_occurrences xs @ (if x \<in> set xs then [] else [x])"
proof -
  have "filter (\<lambda>i. (xs @ [x]) ! i \<notin> set (take i (xs @ [x]))) [0..<length xs]
        = filter (\<lambda>i. xs ! i \<notin> set (take i xs)) [0..<length xs]"
    by (rule filter_cong) (simp_all add: nth_append)
  moreover have "map (\<lambda>i. (xs @ [x]) ! i) (filter (\<lambda>i. xs ! i \<notin> set (take i xs)) [0..<length xs])
        = map (\<lambda>i. xs ! i) (filter (\<lambda>i. xs ! i \<notin> set (take i xs)) [0..<length xs])"
    by (rule map_cong) (simp_all add: nth_append)
  ultimately show ?thesis
    by (simp add: first_occurrences_def)
qed

lemma new_Set_first_occurrences: "new_Set xs = first_occurrences xs"
proof (induction xs rule: rev_induct)
  case Nil
  show ?case by (simp add: first_occurrences_def)
next
  case (snoc x xs)
  have "set (first_occurrences xs) = set xs"
    using snoc set_new_Set[of xs] by simp
  with snoc show ?case by (simp add: new_Set_snoc first_occurrences_snoc set_add_def)
qed

lemma filter_Boolean_append [simp]:
  "filter_Boolean (xs @ ys) = filter_Boolean xs @ filter_Boolean ys"
  by (simp add: filter_Boolean_def)

lemma filter_Boolean_simps [simp]:
  "filter_Boolean [] = []"
  "filter_Boolean (None # vs) = filter_Boolean vs"
  "filter_Boolean (Some s # vs) = (if s = [] then filter_Boolean vs else s # filter_Boolean vs)"
  by (simp_all add: filter_Boolean_def truthy_def)

lemma in_filter_Boolean: "s \<in> set (filter_Boolean vs) \<longleftrightarrow> Some s \<in> set vs \<and> s \<noteq> []"
proof (induction vs)
  case Nil
  show ?case by simp
next
  case (Cons v vs)
  show ?case
  proof (cases v)
    case None
    with Cons show ?thesis by simp
  next
    case (Some t)
    with Cons show ?thesis by (cases "t = []") auto
  qed
qed

lemma set_filter_Boolean: "set (filter_Boolean vs) = {s. Some s \<in> set vs \<and> s \<noteq> []}"
  using in_filter_Boolean by blast

lemma distinct_filter_Boolean: "distinct vs \<Longrightarrow> distinct (filter_Boolean vs)"
proof (induction vs)
  case Nil
  show ?case by simp
next
  case (Cons v vs)
  then show ?case by (cases v) (simp_all add: in_filter_Boolean)
qed

lemma filter_Boolean_new_Set: "filter_Boolean (new_Set vs) = new_Set (filter_Boolean vs)"
proof (induction vs rule: rev_induct)
  case Nil
  show ?case by simp
next
  case (snoc x xs)
  show ?case
  proof (cases x)
    case None
    with snoc show ?thesis by (simp add: new_Set_snoc set_add_def)
  next
    case (Some s)
    show ?thesis
    proof (cases "s = []")
      case True
      with Some snoc show ?thesis by (simp add: new_Set_snoc set_add_def)
    next
      case False
      have "new_Set (filter_Boolean (xs @ [x])) = set_add (new_Set (filter_Boolean xs)) s"
        using Some False by (simp add: new_Set_snoc)
      also have "\<dots> = (if Some s \<in> set xs then filter_Boolean (new_Set xs)
                        else filter_Boolean (new_Set xs) @ [s])"
        using False snoc by (simp add: set_add_def in_filter_Boolean)
      also have "\<dots> = filter_Boolean (new_Set (xs @ [x]))"
        using Some False by (simp add: new_Set_snoc set_add_def)
      finally show ?thesis by simp
    qed
  qed
qed

lemma renderTags_skip_undefined:
  assumes "field_first field child = None"
  shows "renderTagsForField (pre @ child # post) field = renderTagsForField (pre @ post) field"
  using assms by (simp add: renderTagsForField_def filter_Boolean_new_Set)

lemma renderCellValue_leaf:
  "children row = None \<Longrightarrow> renderCellValue f row field = Values (row_field row field)"
  by (simp add: renderCellValue_def)

lemma renderCellValue_one:
  "children row = Some cs \<Longrightarrow> applyFiltersToChildren cs f = [c] \<Longrightarrow>
   renderCellValue f row field = Scalar (field_first field c)"
  by (simp add: renderCellValue_def applyFilterForConceptsWithChildren_def)

lemma renderCellValue_tags:
  "children row = Some cs \<Longrightarrow> length (applyFiltersToChildren cs f) \<noteq> 1 \<Longrightarrow>
   renderCellValue f row field =
     Tags (filter_Boolean (first_occurrences
       (map (field_first field) (applyFiltersToChildren cs f))))"
  by (simp add: renderCellValue_def applyFilterForConceptsWithChildren_def
      renderTagsForField_def new_Set_first_occurrences)

lemma tags_AAB:
  "a \<noteq> [] \<Longrightarrow> b \<noteq> [] \<Longrightarrow> a \<noteq> b \<Longrightarrow>
   filter_Boolean (first_occurrences [Some a, Some a, Some b]) = [a, b]"
  by (simp add: new_Set_first_occurrences[symmetric] new_Set_def set_add_def)

lemma first_occurrences_filter_Boolean:
  "filter_Boolean (first_occurrences vs) = first_occurrences (filter_Boolean vs)"
  using filter_Boolean_new_Set[of vs] by (simp add: new_Set_first_occurrences)

text \<open>
  C4 (cell renderer). For a leaf the renderer returns the row's own value sequence for
  the field, which is the single value when the leaf has one. For a group it filters the
  row's children with the current filter state: a sole remaining child gives that child's
  first value; any other number gives the tags, which are the non-empty first values of
  the remaining children, each once, in the order of first occurrence. No remaining
  child gives no tag, and first values \<open>a, a, b\<close> give the tags \<open>a, b\<close>. Filtering the
  children of a projected group again changes nothing, so for such a row the filtered
  children are the row's own.
\<close>

theorem renderCellValue_contract:
  "(children row = None \<longrightarrow>
      renderCellValue f row field = Values (row_field row field) \<and>
      (\<forall>v. row_field row field = [v] \<longrightarrow> renderCellValue f row field = Values [v])) \<and>
   (\<forall>cs c. children row = Some cs \<longrightarrow> applyFiltersToChildren cs f = [c] \<longrightarrow>
      renderCellValue f row field = Scalar (first_value (row_field c field))) \<and>
   (\<forall>cs. children row = Some cs \<longrightarrow> length (applyFiltersToChildren cs f) \<noteq> 1 \<longrightarrow>
      (\<exists>tags. renderCellValue f row field = Tags tags \<and>
         tags = first_occurrences (filter_Boolean
                  (map (\<lambda>c. first_value (row_field c field)) (applyFiltersToChildren cs f))) \<and>
         distinct tags \<and>
         set tags = {s. s \<noteq> [] \<and>
                        (\<exists>c\<in>set (applyFiltersToChildren cs f). first_value (row_field c field) = Some s)})) \<and>
   (\<forall>cs. children row = Some cs \<longrightarrow> applyFiltersToChildren cs f = [] \<longrightarrow>
      renderCellValue f row field = Tags []) \<and>
   (\<forall>cs c1 c2 c3 a b. children row = Some cs \<longrightarrow> applyFiltersToChildren cs f = [c1, c2, c3] \<longrightarrow>
      row_field c1 field = [a] \<longrightarrow> row_field c2 field = [a] \<longrightarrow> row_field c3 field = [b] \<longrightarrow>
      a \<noteq> [] \<longrightarrow> b \<noteq> [] \<longrightarrow> a \<noteq> b \<longrightarrow>
      renderCellValue f row field = Tags [a, b]) \<and>
   (\<forall>cs. applyFiltersToChildren (applyFiltersToChildren cs f) f = applyFiltersToChildren cs f)"
proof (intro conjI allI impI)
  assume "children row = None"
  then show "renderCellValue f row field = Values (row_field row field)"
    by (rule renderCellValue_leaf)
next
  fix v assume "children row = None" "row_field row field = [v]"
  then show "renderCellValue f row field = Values [v]"
    by (simp add: renderCellValue_leaf)
next
  fix cs c assume "children row = Some cs" "applyFiltersToChildren cs f = [c]"
  then show "renderCellValue f row field = Scalar (first_value (row_field c field))"
    by (simp add: renderCellValue_one field_first_def)
next
  fix cs assume a: "children row = Some cs" "length (applyFiltersToChildren cs f) \<noteq> 1"
  let ?vals = "map (\<lambda>c. first_value (row_field c field)) (applyFiltersToChildren cs f)"
  let ?tags = "first_occurrences (filter_Boolean ?vals)"
  have fe: "field_first field = (\<lambda>c. first_value (row_field c field))"
    by (simp add: fun_eq_iff field_first_def)
  have 1: "renderCellValue f row field = Tags ?tags"
    using renderCellValue_tags[OF a, of field]
    by (simp add: fe first_occurrences_filter_Boolean)
  have 2: "distinct ?tags"
    using distinct_new_Set[of "filter_Boolean ?vals"] by (simp add: new_Set_first_occurrences)
  have "set ?tags = set (filter_Boolean ?vals)"
    using set_new_Set[of "filter_Boolean ?vals"] by (simp add: new_Set_first_occurrences)
  also have "\<dots> = {s. s \<noteq> [] \<and>
       (\<exists>c\<in>set (applyFiltersToChildren cs f). first_value (row_field c field) = Some s)}"
  proof (intro set_eqI iffI)
    fix s assume "s \<in> set (filter_Boolean ?vals)"
    then have "Some s \<in> set ?vals" "s \<noteq> []" by (simp_all add: in_filter_Boolean)
    then obtain c where "c \<in> set (applyFiltersToChildren cs f)"
      "first_value (row_field c field) = Some s" by auto
    with \<open>s \<noteq> []\<close> show "s \<in> {s. s \<noteq> [] \<and>
       (\<exists>c\<in>set (applyFiltersToChildren cs f). first_value (row_field c field) = Some s)}"
      by blast
  next
    fix s assume "s \<in> {s. s \<noteq> [] \<and>
       (\<exists>c\<in>set (applyFiltersToChildren cs f). first_value (row_field c field) = Some s)}"
    then obtain c where c: "s \<noteq> []" "c \<in> set (applyFiltersToChildren cs f)"
      "first_value (row_field c field) = Some s" by blast
    from c(2) have "first_value (row_field c field) \<in> set ?vals" by simp
    with c(1,3) show "s \<in> set (filter_Boolean ?vals)" by (simp add: in_filter_Boolean)
  qed
  finally have 3: "set ?tags = {s. s \<noteq> [] \<and>
       (\<exists>c\<in>set (applyFiltersToChildren cs f). first_value (row_field c field) = Some s)}" .
  from 1 2 3 show "\<exists>tags. renderCellValue f row field = Tags tags \<and>
         tags = ?tags \<and> distinct tags \<and>
         set tags = {s. s \<noteq> [] \<and>
                        (\<exists>c\<in>set (applyFiltersToChildren cs f). first_value (row_field c field) = Some s)}"
    by blast
next
  fix cs assume a: "children row = Some cs" "applyFiltersToChildren cs f = []"
  then have "length (applyFiltersToChildren cs f) \<noteq> 1" by simp
  from renderCellValue_tags[OF a(1) this, of field] a(2)
  show "renderCellValue f row field = Tags []"
    by (simp add: first_occurrences_def)
next
  fix cs c1 c2 c3 a b
  assume a: "children row = Some cs" "applyFiltersToChildren cs f = [c1, c2, c3]"
    and v: "row_field c1 field = [a]" "row_field c2 field = [a]" "row_field c3 field = [b]"
    and n: "a \<noteq> []" "b \<noteq> []" "a \<noteq> b"
  from a(2) have "length (applyFiltersToChildren cs f) \<noteq> 1" by simp
  from renderCellValue_tags[OF a(1) this, of field] a(2) v
  have "renderCellValue f row field = Tags (filter_Boolean (first_occurrences [Some a, Some a, Some b]))"
    by (simp add: field_first_def first_value_def)
  with n show "renderCellValue f row field = Tags [a, b]"
    by (simp add: tags_AAB)
next
  fix cs
  show "applyFiltersToChildren (applyFiltersToChildren cs f) f = applyFiltersToChildren cs f"
    by (simp add: applyFiltersToChildren_def)
qed

theorem renderCellValue_contract_witness:
  "children aspirin = None \<and>
   renderCellValue (only_vocabulary [''SNOMED'']) aspirin Vocabulary_id = Values [''RxNorm''] \<and>
   children lone = Some [leaf_row 7 ''Angina'' ''SNOMED'' ''Condition''] \<and>
   renderCellValue (only_vocabulary [''SNOMED'']) lone Domain_id = Scalar (Some ''Condition'') \<and>
   renderCellValue (only_vocabulary [''RxNorm'']) lone Domain_id = Tags [] \<and>
   renderCellValue defaultFilterState triple Vocabulary_id = Tags [''SNOMED'', ''ICD10CM'']"
proof -
  let ?s = "only_vocabulary [''SNOMED'']"
  let ?r = "only_vocabulary [''RxNorm'']"
  let ?c = "leaf_row 7 ''Angina'' ''SNOMED'' ''Condition''"
  let ?cs = "[leaf_row 1 ''Diabetes'' ''SNOMED'' ''Condition'',
      leaf_row 4 ''Diabetes'' ''SNOMED'' ''Observation'',
      leaf_row 2 ''Diabetes'' ''ICD10CM'' ''Condition'']"
  have l1: "children aspirin = None" by (simp add: aspirin_def leaf_row_def)
  have l2: "row_field aspirin Vocabulary_id = [''RxNorm'']" by (simp add: aspirin_def leaf_row_def)
  have g1: "children lone = Some [?c]" by (simp add: lone_def group_row_def)
  have g2: "applyFiltersToChildren [?c] ?s = [?c]" by (simp add: sample_defs engine_defs)
  have g3: "applyFiltersToChildren [?c] ?r = []" by (simp add: sample_defs engine_defs)
  have g4: "first_value (row_field ?c Domain_id) = Some ''Condition''"
    by (simp add: leaf_row_def first_value_def)
  have t1: "children triple = Some ?cs" by (simp add: triple_def group_row_def)
  have t2: "applyFiltersToChildren ?cs defaultFilterState = ?cs"
    by (simp add: sample_defs engine_defs)
  have t3: "row_field (leaf_row 1 ''Diabetes'' ''SNOMED'' ''Condition'') Vocabulary_id = [''SNOMED'']"
    "row_field (leaf_row 4 ''Diabetes'' ''SNOMED'' ''Observation'') Vocabulary_id = [''SNOMED'']"
    "row_field (leaf_row 2 ''Diabetes'' ''ICD10CM'' ''Condition'') Vocabulary_id = [''ICD10CM'']"
    by (simp_all add: leaf_row_def)
  have a: "renderCellValue ?s aspirin Vocabulary_id = Values [''RxNorm'']"
    using renderCellValue_contract [of aspirin ?s Vocabulary_id] l1 l2 by simp
  have b: "renderCellValue ?s lone Domain_id = Scalar (Some ''Condition'')"
    using renderCellValue_contract [of lone ?s Domain_id] g1 g2 g4 by simp
  have c: "renderCellValue ?r lone Domain_id = Tags []"
    using renderCellValue_contract [of lone ?r Domain_id] g1 g3 by simp
  have d: "renderCellValue defaultFilterState triple Vocabulary_id = Tags [''SNOMED'', ''ICD10CM'']"
    using renderCellValue_contract [of triple defaultFilterState Vocabulary_id,
        THEN conjunct2, THEN conjunct2, THEN conjunct2, THEN conjunct2, THEN conjunct1,
        rule_format, OF t1 t2 t3]
    by simp
  from l1 a g1 b c d show ?thesis by simp
qed

text \<open>
  C9 (malformed input). A child whose value sequence for a field is empty has no first
  value for it. The predicate and the tag renderer are defined on it: the child fails
  every active constraint on that field, so filtering drops it, and it adds nothing to
  the tags of the field.
\<close>

theorem empty_field_degrades:
  assumes "row_field child field = []"
  shows "first_value (row_field child field) = None \<and>
         (\<not> unconstrained (selection f field) \<longrightarrow>
            \<not> matches child f \<and>
            applyFiltersToChildren (pre @ child # post) f = applyFiltersToChildren (pre @ post) f) \<and>
         renderTagsForField (pre @ child # post) field = renderTagsForField (pre @ post) field"
proof -
  have 1: "first_value (row_field child field) = None"
    using assms by (simp add: first_value_def)
  have 2: "\<not> matches child f" if "\<not> unconstrained (selection f field)"
  proof -
    from that 1 have "rejects (selection f field) (row_field child field)"
      by (auto simp: rejects_def unconstrained_def array_includes_def split: option.splits)
    then show ?thesis unfolding matches_iff_rejects by blast
  qed
  then have 3: "applyFiltersToChildren (pre @ child # post) f = applyFiltersToChildren (pre @ post) f"
    if "\<not> unconstrained (selection f field)"
    using that by (simp add: applyFiltersToChildren_def)
  from 1 have "field_first field child = None" by (simp add: field_first_def)
  then have 4: "renderTagsForField (pre @ child # post) field = renderTagsForField (pre @ post) field"
    by (rule renderTags_skip_undefined)
  from 1 2 3 4 show ?thesis by blast
qed

theorem empty_field_degrades_witness:
  "row_field bare Vocabulary_id = [] \<and>
   \<not> unconstrained (selection (only_vocabulary [''SNOMED'']) Vocabulary_id) \<and>
   \<not> matches bare (only_vocabulary [''SNOMED'']) \<and>
   renderTagsForField [leaf_row 1 ''Diabetes'' ''SNOMED'' ''Condition'', bare] Vocabulary_id = [''SNOMED'']"
proof -
  have h: "row_field bare Vocabulary_id = []" by (simp add: bare_def)
  have u: "\<not> unconstrained (selection (only_vocabulary [''SNOMED'']) Vocabulary_id)"
    by (simp add: only_vocabulary_def defaultFilterState_def unconstrained_def)
  have t: "renderTagsForField [leaf_row 1 ''Diabetes'' ''SNOMED'' ''Condition''] Vocabulary_id = [''SNOMED'']"
    by (simp add: renderTagsForField_def field_first_def first_value_def leaf_row_def new_Set_def set_add_def)
  from empty_field_degrades [OF h, of "only_vocabulary [''SNOMED'']"
      "[leaf_row 1 ''Diabetes'' ''SNOMED'' ''Condition'']" "[]"] h u t
  show ?thesis by simp
qed

subsection \<open>The member count of the id column\<close>

lemma show_nat_digit: "n < 10 \<Longrightarrow> show_nat n = [''0123456789'' ! n]"
  by (simp add: show_nat.simps)

lemma idColumnRender_group:
  "concept_id r = None \<Longrightarrow> children r = Some cs \<Longrightarrow>
   idColumnRender r = Text (show_nat (length cs) @ '' concepts'')"
  by (simp add: idColumnRender_def member_count_label_def)

text \<open>
  C6, as the code has it. The id column is rendered from the projected rows, so for a
  group row the count is the number of children of the projected row. A group with at
  most one original child shows its original count. A group with more than one original
  child shows the number of its children that match the current filter state (a single
  match is shown as the promoted child instead).
\<close>

theorem idColumn_member_count:
  assumes "i < length D"
    and "children (D ! i) = Some cs"
    and "concept_id (D ! i) = None"
  shows "(length cs \<le> 1 \<longrightarrow>
            idColumnRender (filterData D f ! i) = Text (show_nat (length cs) @ '' concepts'')) \<and>
         (length cs > 1 \<longrightarrow> length (applyFiltersToChildren cs f) \<noteq> 1 \<longrightarrow>
            idColumnRender (filterData D f ! i) =
              Text (show_nat (length (applyFiltersToChildren cs f)) @ '' concepts'')) \<and>
         (\<forall>c. length cs > 1 \<longrightarrow> applyFiltersToChildren cs f = [c] \<longrightarrow>
            idColumnRender (filterData D f ! i) = idColumnRender c)"
proof -
  from assms(1) have eq: "filterData D f ! i = filterRow f (D ! i)" by (simp add: filterData_def)
  have small: "idColumnRender (filterData D f ! i) = Text (show_nat (length cs) @ '' concepts'')"
    if "length cs \<le> 1"
  proof -
    from that assms(2) have "filterRow f (D ! i) = D ! i" by (simp add: filterRow_def)
    with eq assms(2,3) show ?thesis by (simp add: idColumnRender_group)
  qed
  have large: "idColumnRender (filterData D f ! i) =
      Text (show_nat (length (applyFiltersToChildren cs f)) @ '' concepts'')"
    if "length cs > 1" "length (applyFiltersToChildren cs f) \<noteq> 1"
  proof -
    from that assms(2)
    have "filterRow f (D ! i) = with_children (D ! i) (applyFiltersToChildren cs f)"
      by (simp add: filterRow_def)
    with eq assms(3) show ?thesis by (simp add: idColumnRender_group)
  qed
  have promoted: "idColumnRender (filterData D f ! i) = idColumnRender c"
    if "length cs > 1" "applyFiltersToChildren cs f = [c]" for c
  proof -
    from that assms(2) have "filterRow f (D ! i) = c" by (simp add: filterRow_def)
    with eq show ?thesis by simp
  qed
  from small large promoted show ?thesis by blast
qed

theorem idColumn_member_count_witness:
  "0 < length [triple] \<and>
   children ([triple] ! 0) =
     Some [leaf_row 1 ''Diabetes'' ''SNOMED'' ''Condition'',
           leaf_row 4 ''Diabetes'' ''SNOMED'' ''Observation'',
           leaf_row 2 ''Diabetes'' ''ICD10CM'' ''Condition''] \<and>
   concept_id ([triple] ! 0) = None \<and>
   idColumnRender (filterData [triple] (only_vocabulary [''SNOMED'']) ! 0) = Text ''2 concepts''"
proof -
  let ?cs = "[leaf_row 1 ''Diabetes'' ''SNOMED'' ''Condition'',
           leaf_row 4 ''Diabetes'' ''SNOMED'' ''Observation'',
           leaf_row 2 ''Diabetes'' ''ICD10CM'' ''Condition'']"
  have h1: "0 < length [triple]" by simp
  have h2: "children ([triple] ! 0) = Some ?cs" by (simp add: triple_def group_row_def)
  have h3: "concept_id ([triple] ! 0) = None" by (simp add: triple_def group_row_def)
  have h4: "length ?cs > 1" by simp
  have h5: "length (applyFiltersToChildren ?cs (only_vocabulary [''SNOMED''])) = 2"
    by (simp add: sample_defs engine_defs)
  then have h6: "length (applyFiltersToChildren ?cs (only_vocabulary [''SNOMED''])) \<noteq> 1" by simp
  from idColumn_member_count [OF h1 h2 h3, of "only_vocabulary [''SNOMED'']",
      THEN conjunct2, THEN conjunct1, rule_format, OF h4 h6]
  have "idColumnRender (filterData [triple] (only_vocabulary [''SNOMED'']) ! 0) = Text ''2 concepts''"
    unfolding h5 by (simp add: show_nat_digit)
  with h1 h2 h3 show ?thesis by simp
qed

text \<open>
  C6, as the claim has it, fails: a group of three children of which two match is
  rendered with the count 2, not with its original count 3.
\<close>

theorem idColumn_member_count_counterexample:
  "children triple =
     Some [leaf_row 1 ''Diabetes'' ''SNOMED'' ''Condition'',
           leaf_row 4 ''Diabetes'' ''SNOMED'' ''Observation'',
           leaf_row 2 ''Diabetes'' ''ICD10CM'' ''Condition''] \<and>
   children (filterData [triple] (only_vocabulary [''SNOMED'']) ! 0) =
     Some [leaf_row 1 ''Diabetes'' ''SNOMED'' ''Condition'',
           leaf_row 4 ''Diabetes'' ''SNOMED'' ''Observation''] \<and>
   idColumnRender (filterData [triple] (only_vocabulary [''SNOMED'']) ! 0) = Text ''2 concepts'' \<and>
   idColumnRender (filterData [triple] (only_vocabulary [''SNOMED'']) ! 0) \<noteq> Text ''3 concepts'' \<and>
   idColumnRender (filterData [triple] defaultFilterState ! 0) = Text ''3 concepts''"
  by (simp add: sample_defs engine_defs idColumnRender_def member_count_label_def show_nat_digit)

subsection \<open>The filter options\<close>

lemma set_insert_by [simp]: "set (insert_by cmp x ys) = insert x (set ys)"
  by (induction ys) auto

lemma set_sort_by [simp]: "set (sort_by cmp xs) = set xs"
  by (induction xs) auto

lemma count_insert_by: "count_list (insert_by cmp x ys) k = count_list (x # ys) k"
  by (induction ys) auto

lemma count_sort_by: "count_list (sort_by cmp xs) k = count_list xs k"
  by (induction xs) (simp_all add: count_insert_by)

lemma sorted_insert_by:
  assumes "consistent cmp" and "sorted_wrt (\<lambda>a b. cmp a b \<le> 0) ys"
  shows "sorted_wrt (\<lambda>a b. cmp a b \<le> 0) (insert_by cmp x ys)"
  using assms(2)
proof (induction ys)
  case Nil
  show ?case by simp
next
  case (Cons y ys)
  from assms(1) have total: "cmp a b \<le> 0 \<or> cmp b a \<le> 0" for a b
    by (simp add: consistent_def)
  from assms(1) have trans: "cmp a b \<le> 0 \<Longrightarrow> cmp b c \<le> 0 \<Longrightarrow> cmp a c \<le> 0" for a b c
    unfolding consistent_def by blast
  show ?case
  proof (cases "cmp x y \<le> 0")
    case True
    with Cons.prems trans have "\<forall>z\<in>set ys. cmp x z \<le> 0" by auto
    with True Cons.prems show ?thesis by simp
  next
    case False
    with total[of x y] have "cmp y x \<le> 0" by simp
    with False Cons show ?thesis by simp
  qed
qed

lemma sorted_sort_by:
  "consistent cmp \<Longrightarrow> sorted_wrt (\<lambda>a b. cmp a b \<le> 0) (sort_by cmp xs)"
  by (induction xs) (simp_all add: sorted_insert_by)

lemma sorted_new_Set:
  "sorted_wrt R xs \<Longrightarrow> sorted_wrt R (new_Set xs)"
proof (induction xs rule: rev_induct)
  case Nil
  show ?case by simp
next
  case (snoc x xs)
  then have "sorted_wrt R (new_Set xs)" "\<forall>y\<in>set xs. R y x"
    by (simp_all add: sorted_wrt_append)
  then show ?case by (simp add: new_Set_snoc set_add_def sorted_wrt_append)
qed

text \<open>The strings among the pushed values.\<close>

lemma strings_no_undefined:
  "None \<notin> set vs \<Longrightarrow> map Some [s. Some s \<leftarrow> vs] = vs \<and> filter (\<lambda>v. v = None) vs = []"
proof (induction vs)
  case Nil
  show ?case by simp
next
  case (Cons v vs)
  then show ?case by (cases v) simp_all
qed

lemma property_key_simps [simp]:
  "property_key None = ''undefined''"
  "property_key (Some s) = s"
  by (simp_all add: property_key_def)

lemma property_key_Some: "map property_key (map Some xs) = xs"
  by (induction xs) simp_all

lemma set_array_sort: "set (array_sort cmp vs) = set vs"
proof -
  have "Some ` set [s. Some s \<leftarrow> vs] \<union> {v \<in> set vs. v = None} = set vs"
  proof (induction vs)
    case Nil
    show ?case by simp
  next
    case (Cons v vs)
    then show ?case by (cases v) auto
  qed
  then show ?thesis by (simp add: array_sort_def)
qed

lemma count_keys_split:
  "count_list (map property_key vs) k =
     count_list [s. Some s \<leftarrow> vs] k + count_list (map property_key (filter (\<lambda>v. v = None) vs)) k"
proof (induction vs)
  case Nil
  show ?case by simp
next
  case (Cons v vs)
  then show ?case by (cases v) simp_all
qed

lemma count_array_sort:
  "count_list (map property_key (array_sort cmp vs)) k = count_list (map property_key vs) k"
proof -
  have "count_list (map property_key (array_sort cmp vs)) k =
        count_list (map property_key (map Some (sort_by cmp [s. Some s \<leftarrow> vs]))) k
        + count_list (map property_key (filter (\<lambda>v. v = None) vs)) k"
    unfolding array_sort_def map_append by (rule count_list_append)
  also have "\<dots> = count_list [s. Some s \<leftarrow> vs] k
        + count_list (map property_key (filter (\<lambda>v. v = None) vs)) k"
    unfolding property_key_Some count_sort_by ..
  also have "\<dots> = count_list (map property_key vs) k"
    by (rule count_keys_split[symmetric])
  finally show ?thesis .
qed

text \<open>The object of counts.\<close>

lemma keys_put: "map fst (put obj k v) = set_add (map fst obj) k"
  by (induction obj k v rule: put.induct) (auto simp: set_add_def)

lemma map_of_put: "map_of (put obj k v) = (map_of obj)(k \<mapsto> v)"
  by (induction obj k v rule: put.induct) (auto simp: fun_eq_iff)

lemma keys_bump:
  "map fst (bump native obj k) =
     (if k = ''__proto__'' then map fst obj else set_add (map fst obj) k)"
  by (simp add: bump_def keys_put)

lemma keys_foldl_bump:
  "map fst (foldl (bump native) obj ks) =
     foldl set_add (map fst obj) (filter (\<lambda>k. k \<noteq> ''__proto__'') ks)"
  by (induction ks arbitrary: obj) (simp_all add: keys_bump)

lemma foldl_bump_keys:
  "foldl (\<lambda>acc c. bump native acc (property_key c)) obj cs
     = foldl (bump native) obj (map property_key cs)"
  by (induction cs arbitrary: obj) simp_all

lemma counts_keys:
  "map fst (foldl (bump native) [] ks) = new_Set (filter (\<lambda>k. k \<noteq> ''__proto__'') ks)"
  by (simp add: keys_foldl_bump new_Set_def)

lemma add_one_tally: "0 < n \<Longrightarrow> add_one (tally native k n) = tally native k (Suc n)"
  by (cases n) (simp_all add: add_one_def tally_def replicate_append_same)

lemma next_value_fresh:
  "map_of obj k = None \<Longrightarrow> k \<noteq> ''__proto__'' \<Longrightarrow> next_value native obj k = tally native k 1"
  by (simp add: next_value_def tally_def)

lemma next_value_held:
  "map_of obj k = Some (tally native k n) \<Longrightarrow> 0 < n \<Longrightarrow>
   next_value native obj k = tally native k (Suc n)"
  by (simp add: next_value_def add_one_tally)

text \<open>
  After any number of steps the object holds nothing under \<^verbatim>\<open>__proto__\<close>, and under
  every other key that occurred its tally.
\<close>

lemma counts_lookup:
  "map_of (foldl (bump native) [] ks) k =
     (if k = ''__proto__'' \<or> count_list ks k = 0 then None
      else Some (tally native k (count_list ks k)))"
proof (induction ks arbitrary: k rule: rev_induct)
  case Nil
  show ?case by simp
next
  case (snoc x xs)
  let ?obj = "foldl (bump native) [] xs"
  show ?case
  proof (cases "x = ''__proto__''")
    case True
    have "map_of (foldl (bump native) [] (xs @ [x])) k = map_of ?obj k"
      using True by (simp add: bump_def)
    with snoc.IH[of k] True show ?thesis by auto
  next
    case False
    have step: "map_of (foldl (bump native) [] (xs @ [x])) = (map_of ?obj)(x \<mapsto> next_value native ?obj x)"
      using False by (simp add: bump_def map_of_put)
    show ?thesis
    proof (cases "k = x")
      case k: True
      show ?thesis
      proof (cases "count_list xs x = 0")
        case True
        with snoc.IH[of x] have "map_of ?obj x = None" by simp
        from next_value_fresh[OF this False] True k False step
        show ?thesis by simp
      next
        case nz: False
        with snoc.IH[of x] False
        have "map_of ?obj x = Some (tally native x (count_list xs x))" by simp
        from next_value_held[OF this] nz k False step
        show ?thesis by simp
      qed
    next
      case False
      with step snoc.IH[of k] show ?thesis by simp
    qed
  qed
qed

lemma counts_entry:
  assumes "(k, v) \<in> set (foldl (bump native) [] ks)"
  shows "v = tally native k (count_list ks k)"
proof -
  have "distinct (map fst (foldl (bump native) [] ks))"
    by (simp add: counts_keys distinct_new_Set)
  with assms have "map_of (foldl (bump native) [] ks) k = Some v" by simp
  then show ?thesis
    unfolding counts_lookup by (simp split: if_splits)
qed

lemma set_Object_entries: "set (Object_entries obj) = set obj"
  by (auto simp: Object_entries_def)

lemma distinct_Object_entries:
  assumes "distinct (map fst obj)"
  shows "distinct (map fst (Object_entries obj))"
proof -
  from assms have d: "distinct obj" and i: "inj_on fst (set obj)"
    by (simp_all add: distinct_map)
  have "distinct (Object_entries obj)"
    using d by (auto simp: Object_entries_def)
  moreover have "inj_on fst (set (Object_entries obj))"
    using i by (simp add: set_Object_entries)
  ultimately show ?thesis by (simp add: distinct_map)
qed

lemma Object_entries_plain:
  assumes "\<forall>k\<in>set (map fst obj). \<not> is_array_index k"
  shows "Object_entries obj = obj"
proof -
  from assms have "filter (\<lambda>(k, v). is_array_index k) obj = []"
    by (auto simp: filter_empty_conv)
  moreover from assms have "filter (\<lambda>(k, v). \<not> is_array_index k) obj = obj"
    by (auto simp: filter_id_conv)
  ultimately show ?thesis by (simp add: Object_entries_def)
qed

lemma value_of_options:
  "map value_of (createCountForFilter native cs) =
     map fst (Object_entries (foldl (bump native) [] (map property_key cs)))"
  by (simp add: createCountForFilter_def foldl_bump_keys case_prod_unfold comp_def)

lemma show_value_tally:
  "show_value (tally native k n) =
     (if k \<in> set inherited_functions then native k @ replicate n (CHR ''1'') else show_nat n)"
  by (simp add: show_value_def tally_def)

lemma option_text:
  assumes "opt \<in> set (createCountForFilter native cs)"
  shows "text_of opt = value_of opt @ '' (''
           @ show_value (tally native (value_of opt) (count_list (map property_key cs) (value_of opt)))
           @ '')''"
proof -
  from assms obtain k v where kv: "(k, v) \<in> set (foldl (bump native) [] (map property_key cs))"
    and opt: "opt = \<lparr> text_of = k @ '' ('' @ show_value v @ '')'', value_of = k \<rparr>"
    by (auto simp: createCountForFilter_def foldl_bump_keys set_Object_entries)
  from counts_entry[OF kv] opt show ?thesis by simp
qed

lemma compare_units_total: "compare_units a b \<le> 0 \<or> compare_units b a \<le> 0"
  by (induction a b rule: compare_units.induct) auto

lemma compare_units_Cons:
  "compare_units (x # xs) (y # ys) \<le> 0 \<longleftrightarrow>
     (of_char x :: nat) < of_char y \<or>
     ((of_char x :: nat) = of_char y \<and> compare_units xs ys \<le> 0)"
proof (cases "(of_char x :: nat) < of_char y")
  case True
  then show ?thesis by simp
next
  case False
  note nlt = this
  show ?thesis
  proof (cases "(of_char y :: nat) < of_char x")
    case True
    then have "(of_char x :: nat) \<noteq> of_char y" by linarith
    with True nlt show ?thesis by (simp del: of_char_eq_iff)
  next
    case False
    with nlt have "(of_char x :: nat) = of_char y" by linarith
    with False nlt show ?thesis by (simp del: of_char_eq_iff)
  qed
qed

lemma compare_units_trans:
  "compare_units a b \<le> 0 \<Longrightarrow> compare_units b c \<le> 0 \<Longrightarrow> compare_units a c \<le> 0"
proof (induction a arbitrary: b c)
  case Nil
  then show ?case by (cases c) simp_all
next
  case (Cons x xs)
  from Cons.prems(1) obtain y ys where b: "b = y # ys" by (cases b) simp_all
  from Cons.prems(2) b obtain z zs where c: "c = z # zs" by (cases c) simp_all
  from Cons.prems(1) b
  have xy: "(of_char x :: nat) < of_char y \<or>
     ((of_char x :: nat) = of_char y \<and> compare_units xs ys \<le> 0)"
    by (simp only: compare_units_Cons)
  from Cons.prems(2) b c
  have yz: "(of_char y :: nat) < of_char z \<or>
     ((of_char y :: nat) = of_char z \<and> compare_units ys zs \<le> 0)"
    by (simp only: compare_units_Cons)
  have "(of_char x :: nat) < of_char z \<or>
     ((of_char x :: nat) = of_char z \<and> compare_units xs zs \<le> 0)"
  proof (cases "(of_char x :: nat) < of_char z")
    case True
    then show ?thesis by blast
  next
    case False
    with xy yz have e: "(of_char x :: nat) = of_char y" "(of_char y :: nat) = of_char z"
      and l: "compare_units xs ys \<le> 0" "compare_units ys zs \<le> 0"
      by linarith+
    from Cons.IH[OF l] e show ?thesis by simp
  qed
  then show ?case unfolding c by (simp only: compare_units_Cons)
qed

lemma consistent_compare_units: "consistent compare_units"
  unfolding consistent_def using compare_units_total compare_units_trans by blast

text \<open>
  C7, as the code has it. For each field the options have one entry per distinct key
  among the first values of every row without children and of every child of every row
  with children, the key \<^verbatim>\<open>__proto__\<close> apart, which gets no entry. No other value is
  left out: the empty string is a key like any other, and a missing first value has the
  key \<^verbatim>\<open>undefined\<close>. The text of an entry carries the number of occurrences of its
  key; for a key that names a function every object inherits it carries instead the
  source text of that function followed by one \<^verbatim>\<open>1\<close> for each occurrence. When no
  first value is missing and no key is an array index, the entries are in the order of
  the comparator.
\<close>

theorem getFilterSelector_index:
  "distinct (map value_of (getFilterSelector native cmp field rows)) \<and>
   set (map value_of (getFilterSelector native cmp field rows))
     = set (map property_key (pushed_concepts field rows)) - {''__proto__''} \<and>
   (\<forall>opt\<in>set (getFilterSelector native cmp field rows).
      text_of opt = value_of opt @ '' (''
        @ (if value_of opt \<in> set inherited_functions
           then native (value_of opt)
                @ replicate (count_list (map property_key (pushed_concepts field rows)) (value_of opt))
                    (CHR ''1'')
           else show_nat (count_list (map property_key (pushed_concepts field rows)) (value_of opt)))
        @ '')'') \<and>
   (consistent cmp \<longrightarrow> None \<notin> set (pushed_concepts field rows) \<longrightarrow>
    (\<forall>k\<in>set (map property_key (pushed_concepts field rows)). \<not> is_array_index k) \<longrightarrow>
      sorted_wrt (\<lambda>a b. cmp a b \<le> 0) (map value_of (getFilterSelector native cmp field rows)))"
proof -
  let ?vs = "pushed_concepts field rows"
  let ?ks = "map property_key (array_sort cmp ?vs)"
  let ?own = "filter (\<lambda>k. k \<noteq> ''__proto__'') ?ks"
  let ?obj = "foldl (bump native) [] ?ks"
  let ?opts = "getFilterSelector native cmp field rows"
  have vals: "map value_of ?opts = map fst (Object_entries ?obj)"
    by (simp add: getFilterSelector_def value_of_options)
  have keys: "map fst ?obj = new_Set ?own" by (rule counts_keys)
  have d: "distinct (map value_of ?opts)"
    unfolding vals by (rule distinct_Object_entries) (simp add: keys distinct_new_Set)
  have "set (map fst (Object_entries ?obj)) = set (map fst ?obj)"
    by (simp add: set_Object_entries)
  also have "\<dots> = set ?ks - {''__proto__''}" unfolding keys by auto
  also have "\<dots> = set (map property_key ?vs) - {''__proto__''}" by (simp add: set_array_sort)
  finally have s: "set (map value_of ?opts) = set (map property_key ?vs) - {''__proto__''}"
    unfolding vals .
  have t: "text_of opt = value_of opt @ '' (''
        @ (if value_of opt \<in> set inherited_functions
           then native (value_of opt)
                @ replicate (count_list (map property_key ?vs) (value_of opt)) (CHR ''1'')
           else show_nat (count_list (map property_key ?vs) (value_of opt)))
        @ '')''"
    if "opt \<in> set ?opts" for opt
  proof -
    from that have "opt \<in> set (createCountForFilter native (array_sort cmp ?vs))"
      by (simp add: getFilterSelector_def)
    from option_text[OF this] show ?thesis
      unfolding count_array_sort show_value_tally .
  qed
  have o: "sorted_wrt (\<lambda>a b. cmp a b \<le> 0) (map value_of ?opts)"
    if c: "consistent cmp" and n: "None \<notin> set ?vs"
      and p: "\<forall>k\<in>set (map property_key ?vs). \<not> is_array_index k"
  proof -
    from n have "array_sort cmp ?vs = map Some (sort_by cmp [s. Some s \<leftarrow> ?vs])"
      by (simp add: array_sort_def strings_no_undefined)
    then have ks: "?ks = sort_by cmp [s. Some s \<leftarrow> ?vs]"
      by (simp only: property_key_Some)
    have "set (map fst ?obj) \<subseteq> set (map property_key ?vs)"
      unfolding keys using set_array_sort[of cmp ?vs] by auto
    with p have "\<forall>k\<in>set (map fst ?obj). \<not> is_array_index k" by blast
    then have "Object_entries ?obj = ?obj" by (rule Object_entries_plain)
    then have "map value_of ?opts = new_Set ?own"
      by (simp add: vals keys)
    moreover have "sorted_wrt (\<lambda>a b. cmp a b \<le> 0) ?ks"
      unfolding ks using c by (rule sorted_sort_by)
    then have "sorted_wrt (\<lambda>a b. cmp a b \<le> 0) (new_Set ?own)"
      by (intro sorted_new_Set sorted_wrt_filter)
    ultimately show ?thesis by simp
  qed
  from d s t o show ?thesis by blast
qed

theorem getFilterSelector_index_witness:
  "consistent compare_units \<and>
   pushed_concepts Vocabulary_id [diabetes, aspirin, triple] =
     [Some ''SNOMED'', Some ''ICD10CM'', Some ''RxNorm'', Some ''SNOMED'', Some ''SNOMED'', Some ''ICD10CM''] \<and>
   \<not> is_array_index ''SNOMED'' \<and> \<not> is_array_index ''ICD10CM'' \<and> \<not> is_array_index ''RxNorm'' \<and>
   sorted_wrt (\<lambda>a b. compare_units a b \<le> 0)
     (map value_of (getFilterSelector v8_native compare_units Vocabulary_id [diabetes, aspirin, triple])) \<and>
   getFilterSelector v8_native compare_units Vocabulary_id [diabetes, aspirin, triple] =
     [\<lparr> text_of = ''ICD10CM (2)'', value_of = ''ICD10CM'' \<rparr>,
      \<lparr> text_of = ''RxNorm (1)'', value_of = ''RxNorm'' \<rparr>,
      \<lparr> text_of = ''SNOMED (3)'', value_of = ''SNOMED'' \<rparr>]"
proof -
  let ?rows = "[diabetes, aspirin, triple]"
  have c: "consistent compare_units" by (rule consistent_compare_units)
  have p: "pushed_concepts Vocabulary_id ?rows =
     [Some ''SNOMED'', Some ''ICD10CM'', Some ''RxNorm'', Some ''SNOMED'', Some ''SNOMED'', Some ''ICD10CM'']"
    by (simp add: pushed_concepts_def field_first_def first_value_def sample_defs)
  have i: "\<not> is_array_index ''SNOMED''" "\<not> is_array_index ''ICD10CM''" "\<not> is_array_index ''RxNorm''"
    by (simp_all add: is_array_index_def is_digit_def)
  have n: "None \<notin> set (pushed_concepts Vocabulary_id ?rows)"
    unfolding p by simp
  have k: "\<forall>k\<in>set (map property_key (pushed_concepts Vocabulary_id ?rows)). \<not> is_array_index k"
    unfolding p using i by simp
  from getFilterSelector_index [of v8_native compare_units Vocabulary_id ?rows] c n k
  have s: "sorted_wrt (\<lambda>a b. compare_units a b \<le> 0)
     (map value_of (getFilterSelector v8_native compare_units Vocabulary_id ?rows))"
    by blast
  have e: "getFilterSelector v8_native compare_units Vocabulary_id ?rows =
     [\<lparr> text_of = ''ICD10CM (2)'', value_of = ''ICD10CM'' \<rparr>,
      \<lparr> text_of = ''RxNorm (1)'', value_of = ''RxNorm'' \<rparr>,
      \<lparr> text_of = ''SNOMED (3)'', value_of = ''SNOMED'' \<rparr>]"
    by (simp add: selector_defs sample_defs show_nat_digit)
  from c p i s e show ?thesis by blast
qed

text \<open>
  C7, as the claim has it, fails. An empty value and a missing value each get an entry,
  and keys that are array indices come in numeric order, here \<open>9\<close> before \<open>10\<close> although
  the comparator puts \<open>10\<close> first. The one value that gets no entry is \<^verbatim>\<open>__proto__\<close>,
  which is not empty, and the entry of \<^verbatim>\<open>constructor\<close> carries no count.
\<close>

theorem getFilterSelector_index_counterexample:
  "row_field blank Vocabulary_id = [''''] \<and>
   getFilterSelector v8_native compare_units Vocabulary_id [blank]
     = [\<lparr> text_of = '' (1)'', value_of = '''' \<rparr>] \<and>
   row_field bare Vocabulary_id = [] \<and>
   getFilterSelector v8_native compare_units Vocabulary_id [bare] =
     [\<lparr> text_of = ''undefined (1)'', value_of = ''undefined'' \<rparr>] \<and>
   compare_units ''10'' ''9'' = - 1 \<and>
   map value_of (getFilterSelector v8_native compare_units Vocabulary_id
     [leaf_row 1 ''a'' ''10'' ''Condition'', leaf_row 2 ''b'' ''9'' ''Condition'']) = [''9'', ''10''] \<and>
   getFilterSelector v8_native compare_units Vocabulary_id
     [leaf_row 1 ''a'' ''__proto__'' ''Condition''] = [] \<and>
   getFilterSelector v8_native compare_units Vocabulary_id
     [leaf_row 1 ''a'' ''constructor'' ''Condition'', leaf_row 2 ''b'' ''constructor'' ''Condition''] =
     [\<lparr> text_of = ''constructor (function Object() { [native code] }11)'',
        value_of = ''constructor'' \<rparr>]"
  by (simp add: selector_defs sample_defs show_nat_digit)

end
